theory Spec2Isabelle
  imports Complex_Main
begin

section \<open>The platform\<close>

text \<open>
  Two operations of the JavaScript runtime are parameters of the model, since the
  program relies on them and their definition is not part of the repository:
  \<^item> \<open>date_parse iso\<close> is the time value, in milliseconds since the epoch, that
    \<open>new Date(iso)\<close> holds for a string; \<open>None\<close> stands for an invalid date, whose
    \<open>getTime()\<close> is NaN;
  \<^item> \<open>plus_double x y\<close> is \<open>x + y\<close> on IEEE 754 doubles. The finite doubles are
    reals; the sum is rounded, so it need not be the sum of the reals.
\<close>

record platform =
  date_parse :: "string \<Rightarrow> int option"
  plus_double :: "real \<Rightarrow> real \<Rightarrow> real"

text \<open>
  A property of the platform's addition that IEEE 754 addition with rounding to
  nearest has on numbers: adding a number that is not negative does not give less
  than the other summand.
\<close>

definition sum_not_below :: "platform \<Rightarrow> bool" where
  "sum_not_below pf = (\<forall>x y. 0 \<le> y \<longrightarrow> x \<le> plus_double pf x y)"

section \<open>Time source (src/index.js, lines 79-117)\<close>

text \<open>
  The module-level variable \<open>timeOffset\<close> is \<open>null\<close> until
  \<open>initializeTimeOffset\<close> has run; it is modelled as an \<open>int option\<close>
  (milliseconds). The outcome of the single HTTP request is a parameter: the request
  throws (timeout, network error), it resolves without a body, so that reading
  \<open>res.data.utc_datetime\<close> throws a TypeError, or it resolves with a body, of which
  only the field \<open>utc_datetime\<close> is read. That field is absent, \<open>null\<close>, a
  boolean, a number (taken as whole milliseconds) or a string; an array or an object
  is turned into a string by \<open>new Date\<close> first and is covered by that string.
\<close>

datatype fetch_failure = Timeout | NetworkError







text \<open>
  A platform for concrete runs: it parses the two date strings that the examples use
  and adds reals exactly, as doubles add the small whole numbers of the examples.
\<close>

definition example_platform :: platform where
  "example_platform =
     \<lparr>date_parse =
        (\<lambda>str. if str = ''1970-01-01T00:00:00Z'' then Some 0
               else if str = ''1970-01-01T01:00:00Z'' then Some 3600000
               else None),
      plus_double = (\<lambda>x y. x + y)\<rparr>"

section \<open>Data model\<close>

text \<open>
  The date strings of the configuration are kept as written; the platform parses
  them. The entries of a persisted schedule carry ISO strings that
  \<open>toISOString\<close> wrote, which denote their timestamps one to one; an entry is
  modelled with its timestamp in milliseconds, its kind, and its optional display
  text and image name. A legacy entry that is a bare ISO string is the buy event at
  that time, without text and image, as the source reads it. \<open>OtherKind\<close> stands
  for a missing kind and for any kind string other than the three the generator
  writes; the delivery loop has a branch for it.
\<close>

datatype event_kind = Buy | Countdown | Start | OtherKind

record sched_event =
  at_ts :: int
  kind :: event_kind
  ev_text :: "string option"
  ev_image :: "string option"

record special_phase =
  enabled :: bool
  countdownStartUtc :: string
  presaleStartUtc :: string
  initialBurstMinutes :: int
  initialBurstCount :: int

record config =
  startTimeUtc :: string
  endTimeUtc :: string
  targetTotalUsd :: real
  amountPerMessageUsd :: real
  minPerHour :: int
  maxPerHour :: int
  tokensPerHundred :: real
  startRaisedUsd :: real
  enforceHardStopAtEnd :: bool
  specialPhase :: "special_phase option"

text \<open>
  \<open>getConfigSignature\<close> serialises a fixed object with \<open>JSON.stringify\<close>, and
  startup compares two such strings. The model keeps the object that is serialised:
  the fields in their order, the date strings as the configuration spells them,
  \<open>specialPhase\<close> as \<open>null\<close> or its five fields.
\<close>

type_synonym config_signature =
  "string \<times> string \<times> real \<times> int \<times> int \<times> real \<times> real \<times> bool
   \<times> (bool \<times> string \<times> string \<times> int \<times> int) option"

definition getConfigSignature :: "config \<Rightarrow> config_signature" where
  "getConfigSignature cfg =
     (startTimeUtc cfg, endTimeUtc cfg, targetTotalUsd cfg, minPerHour cfg, maxPerHour cfg,
      amountPerMessageUsd cfg, tokensPerHundred cfg, enforceHardStopAtEnd cfg,
      (case specialPhase cfg of
         None \<Rightarrow> None
       | Some sp \<Rightarrow>
           Some (enabled sp, countdownStartUtc sp, presaleStartUtc sp,
                 initialBurstMinutes sp, initialBurstCount sp)))"

record state =
  configSignature :: config_signature
  schedule :: "sched_event list"
  effectiveEnd :: int
  sentCount :: nat
  totalUsdRaised :: real
  completed :: bool

section \<open>Delivery loop (src/index.js, lines 615-718)\<close>

text \<open>
  One call of \<open>sendNextIfDue\<close>. Its inputs beside the state are the clock reading
  \<open>now\<close> and the notifier, a function that says whether \<open>sendDiscordMessage\<close>
  returns (\<open>True\<close>) or throws when the message is built from a given event object.
  Its result records the state in memory afterwards, the states written to the state
  file in order, the schedule indices for which the notifier was invoked, the event
  objects the messages were built from, and the delay passed to \<open>setTimeout\<close>
  (\<open>None\<close> when no further tick is scheduled).
\<close>

record tick_result =
  state_after :: state
  writes :: "state list"
  notified :: "nat list"
  sent :: "sched_event list"
  nextTick :: "int option"

text \<open>
  Lines 652-717, with \<open>nextEvent\<close> the object the tick has built for the head. A
  buy adds \<open>amountPerMessageUsd\<close> to the total with the double addition of line
  656; the state changes only after the send has returned.
\<close>

definition deliver ::
  "platform \<Rightarrow> config \<Rightarrow> (sched_event \<Rightarrow> bool) \<Rightarrow> int \<Rightarrow> sched_event \<Rightarrow> state \<Rightarrow> tick_result" where
  "deliver pf cfg notifier msUntil nextEvent s =
     (let failed = \<lparr>state_after = s, writes = [], notified = [sentCount s],
                     sent = [nextEvent], nextTick = Some 1000\<rparr>
      in
      if msUntil \<le> 0 then
        (case kind nextEvent of
           Buy \<Rightarrow>
             (if notifier nextEvent then
                (let nextTotal = plus_double pf (totalUsdRaised s) (amountPerMessageUsd cfg);
                     s' = s\<lparr>sentCount := sentCount s + 1, totalUsdRaised := nextTotal\<rparr>
                 in \<lparr>state_after = s', writes = [s'], notified = [sentCount s],
                      sent = [nextEvent], nextTick = Some 1000\<rparr>)
              else failed)
         | Countdown \<Rightarrow>
             (if notifier nextEvent then
                (let s' = s\<lparr>sentCount := sentCount s + 1\<rparr>
                 in \<lparr>state_after = s', writes = [s'], notified = [sentCount s],
                      sent = [nextEvent], nextTick = Some 1000\<rparr>)
              else failed)
         | Start \<Rightarrow>
             (if notifier nextEvent then
                (let s' = s\<lparr>sentCount := sentCount s + 1\<rparr>
                 in \<lparr>state_after = s', writes = [s'], notified = [sentCount s],
                      sent = [nextEvent], nextTick = Some 1000\<rparr>)
              else failed)
         | OtherKind \<Rightarrow>
             (let s' = s\<lparr>sentCount := sentCount s + 1\<rparr>
              in \<lparr>state_after = s', writes = [s'], notified = [], sent = [],
                   nextTick = Some 1000\<rparr>))
      else \<lparr>state_after = s, writes = [], notified = [], sent = [],
            nextTick = Some (min msUntil 5000)\<rparr>)"

text \<open>
  The \<open>while\<close> loop of lines 632-650 followed by the delivery. Every iteration
  writes the state with the cursor advanced; at the end of the schedule it sets
  \<open>completed\<close>, writes again and returns. Otherwise it reads the new head and
  assigns its \<open>kind\<close> and \<open>at\<close> to \<open>nextEvent\<close> (lines 648-649); the text
  and the image of \<open>nextEvent\<close> stay those of the head the tick started with.
\<close>

function skip_stale ::
  "platform \<Rightarrow> config \<Rightarrow> (sched_event \<Rightarrow> bool) \<Rightarrow> int \<Rightarrow> sched_event \<Rightarrow> state \<Rightarrow> tick_result" where
  "skip_stale pf cfg notifier now nextEvent s =
     (let msUntil = at_ts (schedule s ! sentCount s) - now in
      if msUntil < - 30000 \<and> sentCount s < length (schedule s) then
        (let s1 = s\<lparr>sentCount := sentCount s + 1\<rparr> in
         if sentCount s1 \<ge> length (schedule s1) then
           (let s2 = s1\<lparr>completed := True\<rparr>
            in \<lparr>state_after = s2, writes = [s1, s2], notified = [], sent = [],
                 nextTick = None\<rparr>)
         else
           (let ne = schedule s1 ! sentCount s1;
                r = skip_stale pf cfg notifier now
                      (nextEvent\<lparr>kind := kind ne, at_ts := at_ts ne\<rparr>) s1
            in r\<lparr>writes := s1 # writes r\<rparr>))
      else deliver pf cfg notifier msUntil nextEvent s)"
  by pat_completeness auto
termination
  by (relation "measure (\<lambda>(pf, cfg, notifier, now, nextEvent, s).
                   length (schedule s) - sentCount s)") auto

declare skip_stale.simps [simp del]

definition sendNextIfDue ::
  "platform \<Rightarrow> config \<Rightarrow> (sched_event \<Rightarrow> bool) \<Rightarrow> int \<Rightarrow> state \<Rightarrow> tick_result" where
  "sendNextIfDue pf cfg notifier now s =
     (if completed s
      then \<lparr>state_after = s, writes = [], notified = [], sent = [], nextTick = None\<rparr>
      else if sentCount s \<ge> length (schedule s) then
        (let s' = s\<lparr>completed := True\<rparr>
         in \<lparr>state_after = s', writes = [s'], notified = [], sent = [], nextTick = None\<rparr>)
      else skip_stale pf cfg notifier now (schedule s ! sentCount s) s)"

section \<open>Startup\<close>

text \<open>
  Lines 547-568 of \<open>main\<close>: the state file is read (\<open>None\<close> when it is absent
  or unreadable); a missing state or a different signature makes a fresh state from
  the result \<open>gen\<close> of \<open>generateFullSchedule\<close>, which is written. Lines 720-727:
  with \<open>enforceHardStopAtEnd\<close> the entries later than \<open>endTimeUtc\<close> are
  filtered out and the state is written, before the first tick. When \<open>endTimeUtc\<close>
  is not a valid date the comparison with NaN is false for every entry.
\<close>

record startup_result =
  loaded :: state
  regenerated :: bool
  startup_writes :: "state list"

definition fresh_state :: "config \<Rightarrow> sched_event list \<times> int \<Rightarrow> state" where
  "fresh_state cfg gen =
     \<lparr>configSignature = getConfigSignature cfg, schedule = fst gen, effectiveEnd = snd gen,
      sentCount = 0, totalUsdRaised = startRaisedUsd cfg, completed = False\<rparr>"

definition load_or_generate ::
  "config \<Rightarrow> sched_event list \<times> int \<Rightarrow> state option \<Rightarrow> startup_result" where
  "load_or_generate cfg gen persisted =
     (let fresh = \<lparr>loaded = fresh_state cfg gen, regenerated = True,
                    startup_writes = [fresh_state cfg gen]\<rparr>
      in case persisted of
           None \<Rightarrow> fresh
         | Some s \<Rightarrow>
             if configSignature s \<noteq> getConfigSignature cfg then fresh
             else \<lparr>loaded = s, regenerated = False, startup_writes = []\<rparr>)"

definition within_end :: "platform \<Rightarrow> config \<Rightarrow> sched_event \<Rightarrow> bool" where
  "within_end pf cfg item =
     (case date_parse pf (endTimeUtc cfg) of
        None \<Rightarrow> False
      | Some endTs \<Rightarrow> at_ts item \<le> endTs)"

definition enforce_hard_stop :: "platform \<Rightarrow> config \<Rightarrow> state \<Rightarrow> state \<times> state list" where
  "enforce_hard_stop pf cfg s =
     (if enforceHardStopAtEnd cfg then
        (let s' = s\<lparr>schedule := filter (within_end pf cfg) (schedule s)\<rparr>
         in (s', [s']))
      else (s, []))"

definition startup ::
  "platform \<Rightarrow> config \<Rightarrow> sched_event list \<times> int \<Rightarrow> state option \<Rightarrow> startup_result" where
  "startup pf cfg gen persisted =
     (let r = load_or_generate cfg gen persisted;
          hs = enforce_hard_stop pf cfg (loaded r)
      in \<lparr>loaded = fst hs, regenerated = regenerated r,
          startup_writes = startup_writes r @ snd hs\<rparr>)"

text \<open>
  The states a configuration can leave in the state file (\<open>on_disk\<close>) and hold
  in memory between ticks (\<open>in_loop\<close>): a run starts without a state file or from
  any state an earlier run wrote, goes through startup and then ticks with arbitrary
  clock readings and notifier behaviour; every write may be the last one before the
  process stops.
\<close>

inductive on_disk :: "platform \<Rightarrow> config \<Rightarrow> state \<Rightarrow> bool"
  and in_loop :: "platform \<Rightarrow> config \<Rightarrow> state \<Rightarrow> bool"
  for pf :: platform and cfg :: config
where
  first_run: "w \<in> set (startup_writes (startup pf cfg gen None)) \<Longrightarrow> on_disk pf cfg w"
| first_loop: "in_loop pf cfg (loaded (startup pf cfg gen None))"
| restart_write:
    "on_disk pf cfg s \<Longrightarrow> w \<in> set (startup_writes (startup pf cfg gen (Some s)))
     \<Longrightarrow> on_disk pf cfg w"
| restart_loop: "on_disk pf cfg s \<Longrightarrow> in_loop pf cfg (loaded (startup pf cfg gen (Some s)))"
| tick_write:
    "in_loop pf cfg s \<Longrightarrow> w \<in> set (writes (sendNextIfDue pf cfg notifier now s))
     \<Longrightarrow> on_disk pf cfg w"
| tick_loop:
    "in_loop pf cfg s \<Longrightarrow> in_loop pf cfg (state_after (sendNextIfDue pf cfg notifier now s))"

subsection \<open>Predicates used to state the invariants\<close>

definition cursor_ok :: "config \<Rightarrow> state \<Rightarrow> bool" where
  "cursor_ok cfg s =
     (configSignature s = getConfigSignature cfg
      \<and> sentCount s \<le> length (schedule s)
      \<and> (completed s \<longrightarrow> sentCount s = length (schedule s)))"

definition pruned :: "platform \<Rightarrow> config \<Rightarrow> state \<Rightarrow> bool" where
  "pruned pf cfg s =
     (enforceHardStopAtEnd cfg \<longrightarrow> (\<forall>item \<in> set (schedule s). within_end pf cfg item))"

text \<open>The number of buy messages of a tick whose send returned.\<close>

definition buys_delivered :: "(sched_event \<Rightarrow> bool) \<Rightarrow> tick_result \<Rightarrow> nat" where
  "buys_delivered notifier r =
     length (filter (\<lambda>ev. kind ev = Buy \<and> notifier ev) (sent r))"

definition tick_inv ::
  "platform \<Rightarrow> config \<Rightarrow> (sched_event \<Rightarrow> bool) \<Rightarrow> state \<Rightarrow> tick_result \<Rightarrow> bool" where
  "tick_inv pf cfg notifier s r =
     (schedule (state_after r) = schedule s
      \<and> configSignature (state_after r) = configSignature s
      \<and> effectiveEnd (state_after r) = effectiveEnd s
      \<and> sentCount s \<le> sentCount (state_after r)
      \<and> sentCount (state_after r) \<le> length (schedule s)
      \<and> (completed (state_after r) \<longrightarrow> sentCount (state_after r) = length (schedule s))
      \<and> totalUsdRaised (state_after r)
          = (if buys_delivered notifier r = 0 then totalUsdRaised s
             else plus_double pf (totalUsdRaised s) (amountPerMessageUsd cfg))
      \<and> buys_delivered notifier r \<le> 1
      \<and> (nextTick r = None) = completed (state_after r)
      \<and> (\<forall>w \<in> set (writes r).
            schedule w = schedule s
            \<and> configSignature w = configSignature s
            \<and> sentCount w \<le> length (schedule s)
            \<and> (completed w \<longrightarrow> sentCount w = length (schedule s))
            \<and> (totalUsdRaised w = totalUsdRaised s
                \<or> totalUsdRaised w = totalUsdRaised (state_after r))))"

subsection \<open>Concrete runs\<close>

definition example_config :: config where
  "example_config =
     \<lparr>startTimeUtc = ''1970-01-01T00:00:00Z'', endTimeUtc = ''1970-01-01T01:00:00Z'',
      targetTotalUsd = 100, amountPerMessageUsd = 100,
      minPerHour = 1, maxPerHour = 60, tokensPerHundred = 714.28, startRaisedUsd = 0,
      enforceHardStopAtEnd = False, specialPhase = None\<rparr>"

definition example_buy :: sched_event where
  "example_buy = \<lparr>at_ts = 1000, kind = Buy, ev_text = None, ev_image = None\<rparr>"

definition example_generated :: "sched_event list \<times> int" where
  "example_generated = ([example_buy], 3600000)"

definition example_fresh :: state where
  "example_fresh =
     \<lparr>configSignature = getConfigSignature example_config,
      schedule = [example_buy], effectiveEnd = 3600000,
      sentCount = 0, totalUsdRaised = 0, completed = False\<rparr>"

definition example_last_delivered :: state where
  "example_last_delivered =
     \<lparr>configSignature = getConfigSignature example_config,
      schedule = [example_buy], effectiveEnd = 3600000,
      sentCount = 1, totalUsdRaised = 100, completed = False\<rparr>"


definition always_delivers :: "sched_event \<Rightarrow> bool" where
  "always_delivers ev = True"


text \<open>
  Two countdown events 29 minutes apart, as the generator writes them for the marks
  at 59 and at 30 minutes before a launch at 01:00:00 (lines 383-408; the texts are
  cut down to their headline), in a state whose cursor is at the first of them.
\<close>

definition countdown_59 :: sched_event where
  "countdown_59 =
     \<lparr>at_ts = 0, kind = Countdown, ev_text = Some ''59 MINUTES TO LAUNCH!'',
      ev_image = Some ''59.png''\<rparr>"

definition countdown_30 :: sched_event where
  "countdown_30 =
     \<lparr>at_ts = 1740000, kind = Countdown, ev_text = Some ''30 MINUTES TO LAUNCH!'',
      ev_image = Some ''30.png''\<rparr>"

definition example_countdowns :: state where
  "example_countdowns =
     \<lparr>configSignature = getConfigSignature example_config,
      schedule = [countdown_59, countdown_30], effectiveEnd = 3600000,
      sentCount = 0, totalUsdRaised = 0, completed = False\<rparr>"

text \<open>
  A configuration with the hard stop whose single hour cannot hold its two messages,
  so that \<open>generateSchedule\<close> adds a second hour (lines 296-301), and a
  generated schedule with one buy in each hour: the second one lies after the
  configured end.
\<close>

definition hard_stop_config :: config where
  "hard_stop_config =
     \<lparr>startTimeUtc = ''1970-01-01T00:00:00Z'', endTimeUtc = ''1970-01-01T01:00:00Z'',
      targetTotalUsd = 200, amountPerMessageUsd = 100,
      minPerHour = 1, maxPerHour = 1, tokensPerHundred = 714.28, startRaisedUsd = 0,
      enforceHardStopAtEnd = True, specialPhase = None\<rparr>"

definition late_buy :: sched_event where
  "late_buy = \<lparr>at_ts = 3601000, kind = Buy, ev_text = None, ev_image = None\<rparr>"

definition overlong_generated :: "sched_event list \<times> int" where
  "overlong_generated = ([example_buy, late_buy], 7200000)"

section \<open>State store (src/index.js, lines 44-46)\<close>

text \<open>
  \<open>writeJsonFile\<close> makes one call, \<open>fs.writeFileSync(filePath, JSON.stringify(data))\<close>.
  The calls a function makes to the \<open>fs\<close> module are modelled as a list of
  operations; the serialiser is a parameter. \<open>RenameSync\<close> is the other operation
  the claim about atomic writes speaks of; no function of the program issues it.
\<close>

datatype fs_op =
    WriteFileSync string string
  | RenameSync string string

definition writeJsonFile :: "('a \<Rightarrow> string) \<Rightarrow> string \<Rightarrow> 'a \<Rightarrow> fs_op list" where
  "writeJsonFile stringify filePath data = [WriteFileSync filePath (stringify data)]"

text \<open>
  The platform's behaviour, not the program's: a disk maps a path to the contents of
  the file there. \<open>writeFileSync\<close> opens the file with flag \<open>w\<close>, which truncates
  it, and then writes the bytes; a process that stops in between leaves a prefix of
  the data. \<open>renameSync\<close> replaces the target in one step.
\<close>

type_synonym disk = "string \<Rightarrow> string option"

fun run_op :: "fs_op \<Rightarrow> disk \<Rightarrow> disk" where
  "run_op (WriteFileSync p d) disk = disk(p \<mapsto> d)"
| "run_op (RenameSync a b) disk = (disk(b := disk a))(a := None)"

fun during_op :: "fs_op \<Rightarrow> disk \<Rightarrow> disk list" where
  "during_op (WriteFileSync p d) disk = map (\<lambda>n. disk(p \<mapsto> take n d)) [0..<length d]"
| "during_op (RenameSync a b) disk = []"

text \<open>
  The disks a crash can leave behind while a list of operations runs: the disk
  before each operation, the disks in the middle of it, and the disk at the end.
\<close>

fun crash_disks :: "fs_op list \<Rightarrow> disk \<Rightarrow> disk list" where
  "crash_disks [] disk = [disk]"
| "crash_disks (op # ops) disk = disk # during_op op disk @ crash_disks ops (run_op op disk)"

text \<open>
  The write the specification describes: the data goes to a temporary file, which is
  then renamed over the target.
\<close>

definition write_temp_then_rename :: "('a \<Rightarrow> string) \<Rightarrow> string \<Rightarrow> 'a \<Rightarrow> fs_op list" where
  "write_temp_then_rename stringify filePath data =
     [WriteFileSync (filePath @ ''.tmp'') (stringify data),
      RenameSync (filePath @ ''.tmp'') filePath]"

definition STATE_FILE :: string where
  "STATE_FILE = ''data/state.json''"

definition example_disk :: disk where
  "example_disk = Map.empty(STATE_FILE \<mapsto> ''{\"sentCount\":1}'')"

section \<open>Interval deduplication (src/index.js, lines 175-270)\<close>

text \<open>
  \<open>floorToHourTs\<close> clears minutes, seconds and milliseconds of a UTC date, that is,
  it rounds the timestamp down to a multiple of 3600000 ms. \<open>Math.round\<close> rounds
  half up, so on a difference of whole milliseconds \<open>Math.round(d / 1000)\<close> is
  \<open>(d + 500) div 1000\<close>; \<open>Math.ceil(d / 1000)\<close> is \<open>- ((- d) div 1000)\<close>.
\<close>

definition floorToHourTs :: "int \<Rightarrow> int" where
  "floorToHourTs timestampMs = timestampMs - timestampMs mod 3600000"

definition secondOfHour :: "int \<Rightarrow> int" where
  "secondOfHour timestampMs = (timestampMs - floorToHourTs timestampMs) div 1000"

definition gapSec :: "int \<Rightarrow> int \<Rightarrow> int" where
  "gapSec prev cur = max 1 ((cur - prev + 500) div 1000)"

definition ceil_div_1000 :: "int \<Rightarrow> int" where
  "ceil_div_1000 d = - ((- d) div 1000)"

text \<open>
  The first loop (lines 195-200) fills \<open>hourToSeconds\<close>, a map from the hour start
  to the set of seconds taken in that hour; a missing key reads as the empty set
  (\<open>hourToSeconds.get(hourKey) || new Set()\<close>), so the map is a total function.
\<close>

fun init_hourToSeconds :: "int list \<Rightarrow> (int \<Rightarrow> int set) \<Rightarrow> (int \<Rightarrow> int set)" where
  "init_hourToSeconds [] hourToSeconds = hourToSeconds"
| "init_hourToSeconds (t # ts) hourToSeconds =
     init_hourToSeconds ts
       (hourToSeconds(floorToHourTs t := insert (secondOfHour t) (hourToSeconds (floorToHourTs t))))"

text \<open>
  The candidates of one radius, in the order the source pushes them, and the test
  a candidate second has to pass (lines 233-247, and again 251-260).
\<close>

definition radius_candidates :: "int \<Rightarrow> int \<Rightarrow> int \<Rightarrow> int \<Rightarrow> int list" where
  "radius_candidates baseSec lbSec ubSec r =
     (if baseSec + r \<le> ubSec then [baseSec + r] else [])
     @ (if baseSec - r \<ge> lbSec then [baseSec - r] else [])"

definition slot_free :: "int set \<Rightarrow> int set \<Rightarrow> int \<Rightarrow> int \<Rightarrow> int \<Rightarrow> bool" where
  "slot_free usedIntervals usedSecsInHour hourStart prev candSec =
     (candSec \<notin> usedSecsInHour \<and> gapSec prev (hourStart + candSec * 1000) \<notin> usedIntervals)"

text \<open>
  The search: radius 1 to 300, the first free candidate wins; if none is found, the
  linear scan from \<open>lbSec\<close> to \<open>ubSec\<close>.
\<close>

definition find_slot ::
  "int set \<Rightarrow> int set \<Rightarrow> int \<Rightarrow> int \<Rightarrow> int \<Rightarrow> int \<Rightarrow> int \<Rightarrow> int option" where
  "find_slot usedIntervals usedSecsInHour hourStart prev baseSec lbSec ubSec =
     (case List.find (slot_free usedIntervals usedSecsInHour hourStart prev)
             (concat (map (radius_candidates baseSec lbSec ubSec) [1..300])) of
        Some candSec \<Rightarrow> Some candSec
      | None \<Rightarrow>
          List.find (slot_free usedIntervals usedSecsInHour hourStart prev) [lbSec..ubSec])"

text \<open>
  One iteration of the main loop (lines 202-267) for \<open>cur = times[i]\<close>, with
  \<open>prev = times[i - 1]\<close> as it stands after the earlier iterations and
  \<open>next = times[i + 1]\<close> when there is one; \<open>hour_end\<close>, \<open>lower_bound\<close> and
  \<open>upper_bound\<close> are the expressions of lines 213-217. It returns the new \<open>times[i]\<close> and
  the updated bookkeeping.
\<close>

definition hour_end :: "int \<Rightarrow> int" where
  "hour_end hourStart = hourStart + 3600000 - 1"

definition lower_bound :: "int \<Rightarrow> int \<Rightarrow> int" where
  "lower_bound hourStart prev = max hourStart (prev + 1000)"

definition upper_bound :: "int \<Rightarrow> int option \<Rightarrow> int" where
  "upper_bound hourEnd next =
     (case next of Some n \<Rightarrow> min hourEnd (n - 1000) | None \<Rightarrow> hourEnd)"

definition relocate ::
  "int \<Rightarrow> int \<Rightarrow> int option \<Rightarrow> int set \<Rightarrow> (int \<Rightarrow> int set)
   \<Rightarrow> int \<times> int set \<times> (int \<Rightarrow> int set)" where
  "relocate prev cur next usedIntervals hourToSeconds =
     (let deltaSec = gapSec prev cur in
      if deltaSec \<notin> usedIntervals then (cur, insert deltaSec usedIntervals, hourToSeconds)
      else
        (let hourStart = floorToHourTs cur;
             hourEnd = hour_end hourStart;
             lowerBound = lower_bound hourStart prev;
             upperBound = upper_bound hourEnd next
         in
         if lowerBound > upperBound then (cur, insert deltaSec usedIntervals, hourToSeconds)
         else
           (let usedSecsInHour = hourToSeconds hourStart - {secondOfHour cur};
                baseSec = secondOfHour cur;
                lbSec = ceil_div_1000 (lowerBound - hourStart);
                ubSec = (upperBound - hourStart) div 1000
            in
            case find_slot usedIntervals usedSecsInHour hourStart prev baseSec lbSec ubSec of
              Some candSec \<Rightarrow>
                (let candTs = hourStart + candSec * 1000 in
                 (candTs, insert (gapSec prev candTs) usedIntervals,
                  hourToSeconds(hourStart := insert (secondOfHour candTs) usedSecsInHour)))
            | None \<Rightarrow>
                (cur, insert deltaSec usedIntervals,
                 hourToSeconds(hourStart := insert (secondOfHour cur) usedSecsInHour)))))"

fun eui_loop :: "int \<Rightarrow> int list \<Rightarrow> int set \<Rightarrow> (int \<Rightarrow> int set) \<Rightarrow> int list" where
  "eui_loop prev [] usedIntervals hourToSeconds = []"
| "eui_loop prev (cur # rest) usedIntervals hourToSeconds =
     (case relocate prev cur (case rest of [] \<Rightarrow> None | n # ns \<Rightarrow> Some n)
             usedIntervals hourToSeconds of
        (cur', usedIntervals', hourToSeconds') \<Rightarrow>
          cur' # eui_loop cur' rest usedIntervals' hourToSeconds')"

definition enforceUniqueIntervals :: "int list \<Rightarrow> int list" where
  "enforceUniqueIntervals timestamps =
     (case timestamps of
        [] \<Rightarrow> []
      | first # rest \<Rightarrow> first # eui_loop first rest {} (init_hourToSeconds timestamps (\<lambda>hourKey. {})))"

text \<open>
  A timestamp that the loop moved lies strictly between its neighbours in the output
  (\<open>prev\<close> is the output to the left of the first element).
\<close>

fun moved_strictly_between :: "int \<Rightarrow> int list \<Rightarrow> int list \<Rightarrow> bool" where
  "moved_strictly_between prev (x # xs) (y # ys) =
     ((y \<noteq> x \<longrightarrow> prev < y \<and> (case ys of [] \<Rightarrow> True | z # zs \<Rightarrow> y < z))
      \<and> moved_strictly_between y xs ys)"
| "moved_strictly_between prev [] [] = True"
| "moved_strictly_between prev xs ys = False"

section \<open>Claims about the time source\<close>



section \<open>Invariants of the delivery loop\<close>

lemma deliver_inv:
  assumes "sentCount s < length (schedule s)" "\<not> completed s"
  shows "tick_inv pf cfg notifier s (deliver pf cfg notifier msUntil nextEvent s)"
  using assms
  by (cases "kind nextEvent")
     (simp_all add: tick_inv_def deliver_def buys_delivered_def Let_def)

lemma skip_stale_step:
  assumes "sentCount s < length (schedule s)"
    and "at_ts (schedule s ! sentCount s) - now < - 30000"
  shows "skip_stale pf cfg notifier now nextEvent s
         = (if length (schedule s) \<le> sentCount s + 1 then
              \<lparr>state_after = s\<lparr>sentCount := sentCount s + 1, completed := True\<rparr>,
               writes = [s\<lparr>sentCount := sentCount s + 1\<rparr>,
                         s\<lparr>sentCount := sentCount s + 1, completed := True\<rparr>],
               notified = [], sent = [], nextTick = None\<rparr>
            else
              (skip_stale pf cfg notifier now
                 (nextEvent\<lparr>kind := kind (schedule s ! (sentCount s + 1)),
                             at_ts := at_ts (schedule s ! (sentCount s + 1))\<rparr>)
                 (s\<lparr>sentCount := sentCount s + 1\<rparr>))
              \<lparr>writes := s\<lparr>sentCount := sentCount s + 1\<rparr>
                 # writes (skip_stale pf cfg notifier now
                     (nextEvent\<lparr>kind := kind (schedule s ! (sentCount s + 1)),
                                 at_ts := at_ts (schedule s ! (sentCount s + 1))\<rparr>)
                     (s\<lparr>sentCount := sentCount s + 1\<rparr>))\<rparr>)"
  using assms by (subst skip_stale.simps) (simp add: Let_def)

lemma skip_stale_due:
  assumes "\<not> at_ts (schedule s ! sentCount s) - now < - 30000"
  shows "skip_stale pf cfg notifier now nextEvent s
         = deliver pf cfg notifier (at_ts (schedule s ! sentCount s) - now) nextEvent s"
  using assms by (subst skip_stale.simps) (simp add: Let_def)

lemma buys_delivered_writes [simp]:
  "buys_delivered notifier (r\<lparr>writes := ws\<rparr>) = buys_delivered notifier r"
  by (simp add: buys_delivered_def)

lemma tick_inv_skip_last:
  assumes "sentCount s < length (schedule s)" "\<not> completed s"
    "length (schedule s) \<le> sentCount s + 1"
  shows "tick_inv pf cfg notifier s
           \<lparr>state_after = s\<lparr>sentCount := sentCount s + 1, completed := True\<rparr>,
            writes = [s\<lparr>sentCount := sentCount s + 1\<rparr>,
                      s\<lparr>sentCount := sentCount s + 1, completed := True\<rparr>],
            notified = [], sent = [], nextTick = None\<rparr>"
  using assms by (simp add: tick_inv_def buys_delivered_def)

lemma tick_inv_skip_more:
  assumes "tick_inv pf cfg notifier (s\<lparr>sentCount := sentCount s + 1\<rparr>) r"
    and "sentCount s < length (schedule s)" and "\<not> completed s"
  shows "tick_inv pf cfg notifier s (r\<lparr>writes := s\<lparr>sentCount := sentCount s + 1\<rparr> # writes r\<rparr>)"
proof -
  let ?s1 = "s\<lparr>sentCount := sentCount s + 1\<rparr>"
  have a: "schedule (state_after r) = schedule s"
    and b: "configSignature (state_after r) = configSignature s"
    and c: "effectiveEnd (state_after r) = effectiveEnd s"
    and d: "sentCount s + 1 \<le> sentCount (state_after r)"
    and e: "sentCount (state_after r) \<le> length (schedule s)"
    and f: "completed (state_after r) \<longrightarrow> sentCount (state_after r) = length (schedule s)"
    and g: "totalUsdRaised (state_after r)
          = (if buys_delivered notifier r = 0 then totalUsdRaised s
             else plus_double pf (totalUsdRaised s) (amountPerMessageUsd cfg))"
    and h: "buys_delivered notifier r \<le> 1"
    and k: "(nextTick r = None) = completed (state_after r)"
    and i: "\<forall>w \<in> set (writes r).
            schedule w = schedule s
            \<and> configSignature w = configSignature s
            \<and> sentCount w \<le> length (schedule s)
            \<and> (completed w \<longrightarrow> sentCount w = length (schedule s))
            \<and> (totalUsdRaised w = totalUsdRaised s
                \<or> totalUsdRaised w = totalUsdRaised (state_after r))"
    using assms(1) unfolding tick_inv_def by (auto split: if_splits)
  have d': "sentCount s \<le> sentCount (state_after r)" using d by simp
  have j: "\<forall>w \<in> set (?s1 # writes r).
            schedule w = schedule s
            \<and> configSignature w = configSignature s
            \<and> sentCount w \<le> length (schedule s)
            \<and> (completed w \<longrightarrow> sentCount w = length (schedule s))
            \<and> (totalUsdRaised w = totalUsdRaised s
                \<or> totalUsdRaised w = totalUsdRaised (state_after r))"
  proof
    fix w assume "w \<in> set (?s1 # writes r)"
    then consider "w = ?s1" | "w \<in> set (writes r)" by auto
    then show "schedule w = schedule s
            \<and> configSignature w = configSignature s
            \<and> sentCount w \<le> length (schedule s)
            \<and> (completed w \<longrightarrow> sentCount w = length (schedule s))
            \<and> (totalUsdRaised w = totalUsdRaised s
                \<or> totalUsdRaised w = totalUsdRaised (state_after r))"
    proof cases
      case 1
      then show ?thesis using assms(2,3) by simp
    next
      case 2
      then show ?thesis using i by blast
    qed
  qed
  show ?thesis
    unfolding tick_inv_def buys_delivered_writes
    using a b c d' e f g h k j by (simp del: set_simps)
qed

lemma skip_stale_inv:
  "sentCount s < length (schedule s) \<Longrightarrow> \<not> completed s
   \<Longrightarrow> tick_inv pf cfg notifier s (skip_stale pf cfg notifier now nextEvent s)"
proof (induction pf cfg notifier now nextEvent s rule: skip_stale.induct)
  case (1 pf cfg notifier now nextEvent s)
  let ?s1 = "s\<lparr>sentCount := sentCount s + 1\<rparr>"
  let ?ne = "nextEvent\<lparr>kind := kind (schedule s ! (sentCount s + 1)),
                         at_ts := at_ts (schedule s ! (sentCount s + 1))\<rparr>"
  show ?case
  proof (cases "at_ts (schedule s ! sentCount s) - now < - 30000")
    case False
    then show ?thesis
      using deliver_inv [OF "1.prems"] by (simp add: skip_stale_due)
  next
    case stale: True
    show ?thesis
    proof (cases "length (schedule s) \<le> sentCount s + 1")
      case True
      then show ?thesis
        using tick_inv_skip_last [OF "1.prems" True]
        by (simp add: skip_stale_step [OF "1.prems"(1) stale])
    next
      case False
      have "tick_inv pf cfg notifier ?s1 (skip_stale pf cfg notifier now ?ne ?s1)"
        using "1.IH" [OF refl _ refl _ refl] stale "1.prems" False by simp
      then have "tick_inv pf cfg notifier s
                  ((skip_stale pf cfg notifier now ?ne ?s1)
                    \<lparr>writes := ?s1 # writes (skip_stale pf cfg notifier now ?ne ?s1)\<rparr>)"
        using "1.prems" by (rule tick_inv_skip_more)
      then show ?thesis
        using False by (simp add: skip_stale_step [OF "1.prems"(1) stale])
    qed
  qed
qed

lemma sendNextIfDue_inv:
  assumes "sentCount s \<le> length (schedule s)" "completed s \<longrightarrow> sentCount s = length (schedule s)"
  shows "tick_inv pf cfg notifier s (sendNextIfDue pf cfg notifier now s)"
proof (cases "completed s \<or> length (schedule s) \<le> sentCount s")
  case True
  then show ?thesis
    using assms by (auto simp: sendNextIfDue_def tick_inv_def buys_delivered_def Let_def)
next
  case False
  then show ?thesis
    using skip_stale_inv [of s pf cfg notifier now "schedule s ! sentCount s"]
    by (simp add: sendNextIfDue_def)
qed

lemma notified_skip_stale:
  "i \<in> set (notified (skip_stale pf cfg notifier now nextEvent s)) \<Longrightarrow> sentCount s \<le> i"
proof (induction pf cfg notifier now nextEvent s rule: skip_stale.induct)
  case (1 pf cfg notifier now nextEvent s)
  from "1.prems" show ?case
    apply (subst (asm) skip_stale.simps)
    apply (simp add: Let_def deliver_def split: if_splits event_kind.splits)
    using "1.IH" [OF refl _ refl _ refl] apply fastforce
    done
qed

lemma notified_sendNextIfDue:
  "i \<in> set (notified (sendNextIfDue pf cfg notifier now s)) \<Longrightarrow> sentCount s \<le> i"
  using notified_skip_stale [of i pf cfg notifier now "schedule s ! sentCount s" s]
  by (simp add: sendNextIfDue_def Let_def split: if_splits)


lemma sendNextIfDue_skip_more:
  assumes "\<not> completed s" and "sentCount s < length (schedule s)"
    and "at_ts (schedule s ! sentCount s) - now < - 30000"
    and "\<not> length (schedule s) \<le> sentCount s + 1"
  shows "sendNextIfDue pf cfg notifier now s
         = (skip_stale pf cfg notifier now
              ((schedule s ! sentCount s)
                 \<lparr>kind := kind (schedule s ! (sentCount s + 1)),
                  at_ts := at_ts (schedule s ! (sentCount s + 1))\<rparr>)
              (s\<lparr>sentCount := sentCount s + 1\<rparr>))
           \<lparr>writes := s\<lparr>sentCount := sentCount s + 1\<rparr>
              # writes (skip_stale pf cfg notifier now
                  ((schedule s ! sentCount s)
                     \<lparr>kind := kind (schedule s ! (sentCount s + 1)),
                      at_ts := at_ts (schedule s ! (sentCount s + 1))\<rparr>)
                  (s\<lparr>sentCount := sentCount s + 1\<rparr>))\<rparr>"
proof -
  have "sendNextIfDue pf cfg notifier now s
        = skip_stale pf cfg notifier now (schedule s ! sentCount s) s"
    using assms(1,2) by (simp add: sendNextIfDue_def)
  also have "\<dots> = (skip_stale pf cfg notifier now
              ((schedule s ! sentCount s)
                 \<lparr>kind := kind (schedule s ! (sentCount s + 1)),
                  at_ts := at_ts (schedule s ! (sentCount s + 1))\<rparr>)
              (s\<lparr>sentCount := sentCount s + 1\<rparr>))
           \<lparr>writes := s\<lparr>sentCount := sentCount s + 1\<rparr>
              # writes (skip_stale pf cfg notifier now
                  ((schedule s ! sentCount s)
                     \<lparr>kind := kind (schedule s ! (sentCount s + 1)),
                      at_ts := at_ts (schedule s ! (sentCount s + 1))\<rparr>)
                  (s\<lparr>sentCount := sentCount s + 1\<rparr>))\<rparr>"
    unfolding skip_stale_step [OF assms(2,3)] using assms(4) by (simp only: if_False)
  finally show ?thesis .
qed



subsection \<open>Startup and reachable states\<close>

lemma enforce_hard_stop_pruned:
  "pruned pf cfg s \<Longrightarrow> fst (enforce_hard_stop pf cfg s) = s"
  by (simp add: enforce_hard_stop_def pruned_def Let_def)

lemma enforce_hard_stop_writes:
  "w \<in> set (snd (enforce_hard_stop pf cfg s)) \<Longrightarrow> w = fst (enforce_hard_stop pf cfg s)"
  by (simp add: enforce_hard_stop_def Let_def split: if_splits)

lemma enforce_hard_stop_fields:
  "sentCount (fst (enforce_hard_stop pf cfg s)) = sentCount s
   \<and> totalUsdRaised (fst (enforce_hard_stop pf cfg s)) = totalUsdRaised s
   \<and> completed (fst (enforce_hard_stop pf cfg s)) = completed s
   \<and> effectiveEnd (fst (enforce_hard_stop pf cfg s)) = effectiveEnd s
   \<and> configSignature (fst (enforce_hard_stop pf cfg s)) = configSignature s
   \<and> schedule (fst (enforce_hard_stop pf cfg s))
       = (if enforceHardStopAtEnd cfg then filter (within_end pf cfg) (schedule s)
          else schedule s)"
  by (simp add: enforce_hard_stop_def Let_def)

lemma enforce_hard_stop_unsent:
  assumes "cursor_ok cfg s" "sentCount s = 0" "\<not> completed s"
  shows "cursor_ok cfg (fst (enforce_hard_stop pf cfg s))
         \<and> pruned pf cfg (fst (enforce_hard_stop pf cfg s))
         \<and> sentCount (fst (enforce_hard_stop pf cfg s)) = 0
         \<and> \<not> completed (fst (enforce_hard_stop pf cfg s))"
  using assms by (simp add: enforce_hard_stop_def cursor_ok_def pruned_def Let_def)

lemma enforce_hard_stop_ok:
  assumes "cursor_ok cfg s" "pruned pf cfg s \<or> (sentCount s = 0 \<and> \<not> completed s)"
  shows "cursor_ok cfg (fst (enforce_hard_stop pf cfg s))
         \<and> pruned pf cfg (fst (enforce_hard_stop pf cfg s))"
  using assms enforce_hard_stop_pruned [of pf cfg s] enforce_hard_stop_unsent [of cfg s pf]
  by auto

lemma fresh_state_ok:
  "cursor_ok cfg (fresh_state cfg gen) \<and> sentCount (fresh_state cfg gen) = 0
   \<and> \<not> completed (fresh_state cfg gen)"
  by (simp add: fresh_state_def cursor_ok_def)

lemma startup_None:
  "loaded (startup pf cfg gen None) = fst (enforce_hard_stop pf cfg (fresh_state cfg gen))
   \<and> startup_writes (startup pf cfg gen None)
       = fresh_state cfg gen # snd (enforce_hard_stop pf cfg (fresh_state cfg gen))
   \<and> regenerated (startup pf cfg gen None)"
  by (simp add: startup_def load_or_generate_def Let_def)

lemma startup_Some:
  "configSignature s = getConfigSignature cfg \<Longrightarrow>
   loaded (startup pf cfg gen (Some s)) = fst (enforce_hard_stop pf cfg s)
   \<and> startup_writes (startup pf cfg gen (Some s)) = snd (enforce_hard_stop pf cfg s)
   \<and> \<not> regenerated (startup pf cfg gen (Some s))"
  by (simp add: startup_def load_or_generate_def Let_def)

lemma startup_Some_differs:
  "configSignature s \<noteq> getConfigSignature cfg \<Longrightarrow>
   startup pf cfg gen (Some s) = startup pf cfg gen None"
  by (simp add: startup_def load_or_generate_def Let_def)

lemma reachable_inv:
  shows "on_disk pf cfg s \<Longrightarrow>
           cursor_ok cfg s \<and> (pruned pf cfg s \<or> (sentCount s = 0 \<and> \<not> completed s))"
    and "in_loop pf cfg t \<Longrightarrow> cursor_ok cfg t \<and> pruned pf cfg t"
proof (induction rule: on_disk_in_loop.inducts)
  case (first_run w gen)
  then consider "w = fresh_state cfg gen"
    | "w = fst (enforce_hard_stop pf cfg (fresh_state cfg gen))"
    using enforce_hard_stop_writes [of w pf cfg "fresh_state cfg gen"]
    by (auto simp: startup_None)
  then show ?case
    using fresh_state_ok [of cfg gen] enforce_hard_stop_unsent [of cfg "fresh_state cfg gen" pf]
    by cases auto
next
  case (first_loop gen)
  show ?case
    using fresh_state_ok [of cfg gen] enforce_hard_stop_unsent [of cfg "fresh_state cfg gen" pf]
    by (simp add: startup_None)
next
  case (restart_write s w gen)
  then have "w = fst (enforce_hard_stop pf cfg s)"
    using enforce_hard_stop_writes [of w pf cfg s] startup_Some [of s cfg pf gen]
    by (simp add: cursor_ok_def)
  then show ?case
    using restart_write.IH enforce_hard_stop_ok [of cfg s pf] by simp
next
  case (restart_loop s gen)
  then have "loaded (startup pf cfg gen (Some s)) = fst (enforce_hard_stop pf cfg s)"
    using startup_Some [of s cfg pf gen] by (simp add: cursor_ok_def)
  then show ?case
    using restart_loop.IH enforce_hard_stop_ok [of cfg s pf] by simp
next
  case (tick_write s w notifier now)
  then have "tick_inv pf cfg notifier s (sendNextIfDue pf cfg notifier now s)"
    using sendNextIfDue_inv [of s pf cfg notifier now] by (simp add: cursor_ok_def)
  then show ?case
    using tick_write by (auto simp: tick_inv_def cursor_ok_def pruned_def)
next
  case (tick_loop s notifier now)
  then have "tick_inv pf cfg notifier s (sendNextIfDue pf cfg notifier now s)"
    using sendNextIfDue_inv [of s pf cfg notifier now] by (simp add: cursor_ok_def)
  then show ?case
    using tick_loop by (auto simp: tick_inv_def cursor_ok_def pruned_def)
qed

subsection \<open>The concrete runs, evaluated\<close>

lemma example_fresh_eq: "fresh_state example_config example_generated = example_fresh"
  by (simp add: fresh_state_def example_generated_def example_fresh_def example_config_def)

lemma example_startup:
  "startup example_platform example_config example_generated None
   = \<lparr>loaded = example_fresh, regenerated = True, startup_writes = [example_fresh]\<rparr>"
  by (simp add: startup_def load_or_generate_def enforce_hard_stop_def Let_def example_fresh_eq)
     (simp add: example_config_def)

lemma example_fresh_in_loop: "in_loop example_platform example_config example_fresh"
  using first_loop [of example_platform example_config example_generated]
  by (simp add: example_startup)

lemma example_tick_delivers:
  "sendNextIfDue example_platform example_config always_delivers 1000 example_fresh
   = \<lparr>state_after = example_last_delivered, writes = [example_last_delivered],
      notified = [0], sent = [example_buy], nextTick = Some 1000\<rparr>"
  by (simp add: sendNextIfDue_def skip_stale_due deliver_def Let_def always_delivers_def
      example_fresh_def example_last_delivered_def example_config_def example_buy_def
      example_platform_def)



lemma example_last_delivered_on_disk:
  "on_disk example_platform example_config example_last_delivered"
  using tick_write [OF example_fresh_in_loop, of example_last_delivered always_delivers 1000]
  by (simp add: example_tick_delivers)

lemma example_last_delivered_in_loop:
  "in_loop example_platform example_config example_last_delivered"
  using tick_loop [OF example_fresh_in_loop, of always_delivers 1000]
  by (simp add: example_tick_delivers)

lemma example_tick_completes:
  "sendNextIfDue example_platform example_config notifier now example_last_delivered
   = \<lparr>state_after = example_last_delivered\<lparr>completed := True\<rparr>,
      writes = [example_last_delivered\<lparr>completed := True\<rparr>],
      notified = [], sent = [], nextTick = None\<rparr>"
  by (simp add: sendNextIfDue_def Let_def example_last_delivered_def)

lemma example_completed_on_disk:
  "on_disk example_platform example_config (example_last_delivered\<lparr>completed := True\<rparr>)"
  using tick_write [OF example_last_delivered_in_loop,
          of "example_last_delivered\<lparr>completed := True\<rparr>" always_delivers 2000]
  by (simp add: example_tick_completes)

lemma example_countdowns_tick:
  "sendNextIfDue example_platform example_config always_delivers 1740000 example_countdowns
   = \<lparr>state_after = example_countdowns\<lparr>sentCount := 2\<rparr>,
      writes = [example_countdowns\<lparr>sentCount := 1\<rparr>, example_countdowns\<lparr>sentCount := 2\<rparr>],
      notified = [1],
      sent = [countdown_59\<lparr>at_ts := 1740000\<rparr>],
      nextTick = Some 1000\<rparr>"
proof -
  let ?s1 = "example_countdowns\<lparr>sentCount := 1\<rparr>"
  have a: "\<not> completed example_countdowns"
    "sentCount example_countdowns < length (schedule example_countdowns)"
    "at_ts (schedule example_countdowns ! sentCount example_countdowns) - 1740000 < - 30000"
    "\<not> length (schedule example_countdowns) \<le> sentCount example_countdowns + 1"
    by (simp_all add: example_countdowns_def countdown_59_def)
  have ne: "(schedule example_countdowns ! sentCount example_countdowns)
              \<lparr>kind := kind (schedule example_countdowns ! (sentCount example_countdowns + 1)),
               at_ts := at_ts (schedule example_countdowns ! (sentCount example_countdowns + 1))\<rparr>
            = countdown_59\<lparr>at_ts := 1740000\<rparr>"
    by (simp add: example_countdowns_def countdown_59_def countdown_30_def)
  have s1: "example_countdowns\<lparr>sentCount := sentCount example_countdowns + 1\<rparr> = ?s1"
    by (simp add: example_countdowns_def)
  have due: "\<not> at_ts (schedule ?s1 ! sentCount ?s1) - 1740000 < - 30000"
    by (simp add: example_countdowns_def countdown_30_def)
  have d: "skip_stale example_platform example_config always_delivers 1740000
             (countdown_59\<lparr>at_ts := 1740000\<rparr>) ?s1
           = \<lparr>state_after = example_countdowns\<lparr>sentCount := 2\<rparr>,
              writes = [example_countdowns\<lparr>sentCount := 2\<rparr>],
              notified = [1],
              sent = [countdown_59\<lparr>at_ts := 1740000\<rparr>],
              nextTick = Some 1000\<rparr>"
    unfolding skip_stale_due [OF due]
    by (simp add: deliver_def Let_def always_delivers_def example_countdowns_def
        countdown_59_def countdown_30_def)
  show ?thesis
    unfolding sendNextIfDue_skip_more [OF a] ne s1 d by simp
qed

section \<open>Claims about the delivery loop and startup\<close>

text \<open>
  Claim C2, as amended. In every state that a run writes to the state file, the cursor
  \<open>sentCount\<close> (a counter that starts at 0 and is only incremented) is at most the
  length of the schedule, and \<open>completed\<close> implies that the cursor equals that length.
  The converse is not an invariant: the write that moves the cursor to the end leaves
  \<open>completed\<close> false. The flag is set by the next tick: a tick that leaves the state
  uncompleted always asks for another tick, and a tick that finds the cursor at the end
  sets \<open>completed\<close>, writes that state and stops the loop. A tick delivers at most one
  buy event; the total after it is the floating-point sum of line 656 of the old total
  and \<open>amountPerMessageUsd\<close> when a buy was delivered, and the old total otherwise,
  so it does not decrease when the amount is not negative (given that the platform's
  sum with a non-negative number is not below the other summand); every state the
  tick writes carries the old or the new total; a restart that reads the state back
  keeps the total.
\<close>

theorem C2_persisted_state_invariants:
  "(on_disk pf cfg s \<longrightarrow>
      sentCount s \<le> length (schedule s)
      \<and> (completed s \<longrightarrow> sentCount s = length (schedule s))
      \<and> totalUsdRaised (loaded (startup pf cfg gen (Some s))) = totalUsdRaised s)
   \<and> (in_loop pf cfg t \<longrightarrow>
        (let r = sendNextIfDue pf cfg notifier now t in
           totalUsdRaised (state_after r)
             = (if buys_delivered notifier r = 0 then totalUsdRaised t
                else plus_double pf (totalUsdRaised t) (amountPerMessageUsd cfg))
           \<and> buys_delivered notifier r \<le> 1
           \<and> (sum_not_below pf \<and> 0 \<le> amountPerMessageUsd cfg
                \<longrightarrow> totalUsdRaised t \<le> totalUsdRaised (state_after r))
           \<and> (\<forall>w \<in> set (writes r).
                 totalUsdRaised w = totalUsdRaised t
                 \<or> totalUsdRaised w = totalUsdRaised (state_after r))
           \<and> (\<not> completed (state_after r) \<longrightarrow> nextTick r \<noteq> None)
           \<and> (sentCount t = length (schedule t) \<and> \<not> completed t \<longrightarrow>
                 r = \<lparr>state_after = t\<lparr>completed := True\<rparr>,
                      writes = [t\<lparr>completed := True\<rparr>],
                      notified = [], sent = [], nextTick = None\<rparr>)))"
proof (intro conjI impI)
  assume d: "on_disk pf cfg s"
  then have ok: "cursor_ok cfg s" using reachable_inv(1) by blast
  then show "sentCount s \<le> length (schedule s)" by (simp add: cursor_ok_def)
  show "sentCount s = length (schedule s)" if "completed s"
    using ok that by (simp add: cursor_ok_def)
  have "loaded (startup pf cfg gen (Some s)) = fst (enforce_hard_stop pf cfg s)"
    using ok startup_Some [of s cfg pf gen] by (simp add: cursor_ok_def)
  then show "totalUsdRaised (loaded (startup pf cfg gen (Some s))) = totalUsdRaised s"
    by (simp add: enforce_hard_stop_fields)
next
  let ?r = "sendNextIfDue pf cfg notifier now t"
  assume "in_loop pf cfg t"
  then have "cursor_ok cfg t" using reachable_inv(2) by blast
  then have inv: "tick_inv pf cfg notifier t ?r"
    using sendNextIfDue_inv [of t pf cfg notifier now] by (simp add: cursor_ok_def)
  have a: "totalUsdRaised (state_after ?r)
             = (if buys_delivered notifier ?r = 0 then totalUsdRaised t
                else plus_double pf (totalUsdRaised t) (amountPerMessageUsd cfg))"
    and b: "buys_delivered notifier ?r \<le> 1"
    and c: "\<forall>w \<in> set (writes ?r).
                 totalUsdRaised w = totalUsdRaised t
                 \<or> totalUsdRaised w = totalUsdRaised (state_after ?r)"
    and e: "\<not> completed (state_after ?r) \<longrightarrow> nextTick ?r \<noteq> None"
    using inv unfolding tick_inv_def by blast+
  have f: "totalUsdRaised t \<le> totalUsdRaised (state_after ?r)"
    if "sum_not_below pf \<and> 0 \<le> amountPerMessageUsd cfg"
    using that unfolding a sum_not_below_def by simp
  have g: "?r = \<lparr>state_after = t\<lparr>completed := True\<rparr>, writes = [t\<lparr>completed := True\<rparr>],
                  notified = [], sent = [], nextTick = None\<rparr>"
    if "sentCount t = length (schedule t) \<and> \<not> completed t"
    using that by (simp add: sendNextIfDue_def Let_def)
  show "let r = sendNextIfDue pf cfg notifier now t in
           totalUsdRaised (state_after r)
             = (if buys_delivered notifier r = 0 then totalUsdRaised t
                else plus_double pf (totalUsdRaised t) (amountPerMessageUsd cfg))
           \<and> buys_delivered notifier r \<le> 1
           \<and> (sum_not_below pf \<and> 0 \<le> amountPerMessageUsd cfg
                \<longrightarrow> totalUsdRaised t \<le> totalUsdRaised (state_after r))
           \<and> (\<forall>w \<in> set (writes r).
                 totalUsdRaised w = totalUsdRaised t
                 \<or> totalUsdRaised w = totalUsdRaised (state_after r))
           \<and> (\<not> completed (state_after r) \<longrightarrow> nextTick r \<noteq> None)
           \<and> (sentCount t = length (schedule t) \<and> \<not> completed t \<longrightarrow>
                 r = \<lparr>state_after = t\<lparr>completed := True\<rparr>,
                      writes = [t\<lparr>completed := True\<rparr>],
                      notified = [], sent = [], nextTick = None\<rparr>)"
    unfolding Let_def using a b c e f g by blast
qed

theorem C2_persisted_state_invariants_witness:
  "on_disk example_platform example_config (example_last_delivered\<lparr>completed := True\<rparr>)
   \<and> completed (example_last_delivered\<lparr>completed := True\<rparr>)
   \<and> sentCount (example_last_delivered\<lparr>completed := True\<rparr>)
       = length (schedule (example_last_delivered\<lparr>completed := True\<rparr>))
   \<and> totalUsdRaised
        (loaded (startup example_platform example_config example_generated
                   (Some (example_last_delivered\<lparr>completed := True\<rparr>)))) = 100
   \<and> in_loop example_platform example_config example_fresh
   \<and> buys_delivered always_delivers
        (sendNextIfDue example_platform example_config always_delivers 1000 example_fresh) = 1
   \<and> sum_not_below example_platform
   \<and> 0 \<le> amountPerMessageUsd example_config
   \<and> totalUsdRaised example_fresh
       \<le> totalUsdRaised
            (state_after
               (sendNextIfDue example_platform example_config always_delivers 1000 example_fresh))
   \<and> totalUsdRaised
        (state_after
           (sendNextIfDue example_platform example_config always_delivers 1000 example_fresh))
      = plus_double example_platform (totalUsdRaised example_fresh)
          (amountPerMessageUsd example_config)
   \<and> in_loop example_platform example_config example_last_delivered
   \<and> sentCount example_last_delivered = length (schedule example_last_delivered)
   \<and> \<not> completed example_last_delivered
   \<and> sendNextIfDue example_platform example_config always_delivers 2000 example_last_delivered
       = \<lparr>state_after = example_last_delivered\<lparr>completed := True\<rparr>,
          writes = [example_last_delivered\<lparr>completed := True\<rparr>],
          notified = [], sent = [], nextTick = None\<rparr>"
proof -
  have a: "buys_delivered always_delivers
        (sendNextIfDue example_platform example_config always_delivers 1000 example_fresh) = 1"
    by (simp add: example_tick_delivers buys_delivered_def always_delivers_def example_buy_def)
  have b: "sum_not_below example_platform \<and> 0 \<le> amountPerMessageUsd example_config"
    by (simp add: sum_not_below_def example_platform_def example_config_def)
  have c: "sentCount example_last_delivered = length (schedule example_last_delivered)
           \<and> \<not> completed example_last_delivered"
    by (simp add: example_last_delivered_def)
  have d: "completed (example_last_delivered\<lparr>completed := True\<rparr>)" by simp
  have e: "totalUsdRaised (example_last_delivered\<lparr>completed := True\<rparr>) = 100"
    by (simp add: example_last_delivered_def)
  show ?thesis
    using C2_persisted_state_invariants
            [where pf = example_platform and cfg = example_config
               and s = "example_last_delivered\<lparr>completed := True\<rparr>"
               and t = example_fresh and gen = example_generated
               and notifier = always_delivers and now = 1000]
          C2_persisted_state_invariants
            [where pf = example_platform and cfg = example_config
               and s = "example_last_delivered\<lparr>completed := True\<rparr>"
               and t = example_last_delivered and gen = example_generated
               and notifier = always_delivers and now = 2000]
          example_completed_on_disk example_fresh_in_loop example_last_delivered_in_loop
          a b c d e
    unfolding Let_def by (simp del: One_nat_def)
qed

theorem C2_completed_iff_counterexample:
  "on_disk example_platform example_config example_last_delivered
   \<and> sentCount example_last_delivered = length (schedule example_last_delivered)
   \<and> \<not> completed example_last_delivered"
  using example_last_delivered_on_disk by (simp add: example_last_delivered_def)
text \<open>
  Claim C3. The skip itself is as the claim says: a head that is more than 30 seconds
  late is passed over without a send for its index, the cursor moves on, the state is
  written and the new head is looked at in the same tick. But the event object that the
  delivery is built from is made once, from the head the tick started with (line 627),
  and after a skip only its \<open>kind\<close> and \<open>at\<close> are refreshed (lines 648-649).
  For a process that starts its tick at 00:29:00 with the cursor on the countdown event
  of 00:00:00, followed by the countdown event of 00:29:00: the first event is skipped,
  the second is due and the one send of the tick, counted for index 1, carries the text
  and the image of the skipped event at index 0, not those of the event at index 1.
\<close>

theorem C3_skip_delivers_payload_of_skipped_event:
  "sendNextIfDue example_platform example_config always_delivers 1740000 example_countdowns
   = \<lparr>state_after = example_countdowns\<lparr>sentCount := 2\<rparr>,
      writes = [example_countdowns\<lparr>sentCount := 1\<rparr>, example_countdowns\<lparr>sentCount := 2\<rparr>],
      notified = [1],
      sent = [countdown_59\<lparr>at_ts := 1740000\<rparr>],
      nextTick = Some 1000\<rparr>
   \<and> schedule example_countdowns ! 0 = countdown_59
   \<and> schedule example_countdowns ! 1 = countdown_30
   \<and> at_ts countdown_59 - 1740000 < - 30000
   \<and> at_ts countdown_30 - 1740000 = 0
   \<and> ev_text (countdown_59\<lparr>at_ts := 1740000\<rparr>) = ev_text countdown_59
   \<and> ev_image (countdown_59\<lparr>at_ts := 1740000\<rparr>) = ev_image countdown_59
   \<and> ev_text countdown_59 \<noteq> ev_text countdown_30
   \<and> ev_image countdown_59 \<noteq> ev_image countdown_30"
proof (intro conjI)
  show "sendNextIfDue example_platform example_config always_delivers 1740000 example_countdowns
   = \<lparr>state_after = example_countdowns\<lparr>sentCount := 2\<rparr>,
      writes = [example_countdowns\<lparr>sentCount := 1\<rparr>, example_countdowns\<lparr>sentCount := 2\<rparr>],
      notified = [1],
      sent = [countdown_59\<lparr>at_ts := 1740000\<rparr>],
      nextTick = Some 1000\<rparr>"
    by (rule example_countdowns_tick)
qed (simp_all add: example_countdowns_def countdown_59_def countdown_30_def)




text \<open>
  Claim C5, as amended. Startup regenerates exactly when the state file gives no state
  or a state whose signature differs from that of the current configuration; the fresh
  state is then written first and the state handed to the delivery loop has cursor 0,
  the configured starting total and the generated schedule. With an equal signature
  nothing is generated, and cursor, accumulated value, completion flag, effective end
  and signature are taken from the persisted state. The schedule is not always reused
  as it is: with \<open>enforceHardStopAtEnd\<close> every startup, resumed or not, removes the
  events later than \<open>endTimeUtc\<close> and writes the state. A state that the delivery loop
  has reached is returned unchanged by startup, since it has been pruned before.
\<close>

theorem C5_idempotent_resume:
  "regenerated (startup pf cfg gen p)
     = (case p of None \<Rightarrow> True | Some s \<Rightarrow> configSignature s \<noteq> getConfigSignature cfg)
   \<and> (regenerated (startup pf cfg gen p) \<longrightarrow>
        hd (startup_writes (startup pf cfg gen p)) = fresh_state cfg gen
        \<and> sentCount (loaded (startup pf cfg gen p)) = 0
        \<and> totalUsdRaised (loaded (startup pf cfg gen p)) = startRaisedUsd cfg
        \<and> \<not> completed (loaded (startup pf cfg gen p))
        \<and> configSignature (loaded (startup pf cfg gen p)) = getConfigSignature cfg
        \<and> schedule (loaded (startup pf cfg gen p))
            = (if enforceHardStopAtEnd cfg then filter (within_end pf cfg) (fst gen)
               else fst gen))
   \<and> (configSignature s = getConfigSignature cfg \<longrightarrow>
        \<not> regenerated (startup pf cfg gen (Some s))
        \<and> sentCount (loaded (startup pf cfg gen (Some s))) = sentCount s
        \<and> totalUsdRaised (loaded (startup pf cfg gen (Some s))) = totalUsdRaised s
        \<and> completed (loaded (startup pf cfg gen (Some s))) = completed s
        \<and> effectiveEnd (loaded (startup pf cfg gen (Some s))) = effectiveEnd s
        \<and> configSignature (loaded (startup pf cfg gen (Some s))) = configSignature s
        \<and> schedule (loaded (startup pf cfg gen (Some s)))
            = (if enforceHardStopAtEnd cfg then filter (within_end pf cfg) (schedule s)
               else schedule s)
        \<and> startup_writes (startup pf cfg gen (Some s))
            = (if enforceHardStopAtEnd cfg then [loaded (startup pf cfg gen (Some s))]
               else []))
   \<and> (in_loop pf cfg t \<longrightarrow>
        loaded (startup pf cfg gen (Some t)) = t
        \<and> \<not> regenerated (startup pf cfg gen (Some t)))"
proof (intro conjI impI)
  show "regenerated (startup pf cfg gen p)
     = (case p of None \<Rightarrow> True | Some s \<Rightarrow> configSignature s \<noteq> getConfigSignature cfg)"
    by (cases p) (simp_all add: startup_def load_or_generate_def Let_def)
next
  assume "regenerated (startup pf cfg gen p)"
  then have eq: "startup pf cfg gen p = startup pf cfg gen None"
    by (cases p) (simp_all add: startup_def load_or_generate_def Let_def split: if_splits)
  have l: "loaded (startup pf cfg gen None) = fst (enforce_hard_stop pf cfg (fresh_state cfg gen))"
    by (simp add: startup_None)
  show "hd (startup_writes (startup pf cfg gen p)) = fresh_state cfg gen"
    unfolding eq by (simp add: startup_None)
  show "sentCount (loaded (startup pf cfg gen p)) = 0"
    unfolding eq l by (simp add: enforce_hard_stop_fields fresh_state_def)
  show "totalUsdRaised (loaded (startup pf cfg gen p)) = startRaisedUsd cfg"
    unfolding eq l by (simp add: enforce_hard_stop_fields fresh_state_def)
  show "\<not> completed (loaded (startup pf cfg gen p))"
    unfolding eq l by (simp add: enforce_hard_stop_fields fresh_state_def)
  show "configSignature (loaded (startup pf cfg gen p)) = getConfigSignature cfg"
    unfolding eq l by (simp add: enforce_hard_stop_fields fresh_state_def)
  show "schedule (loaded (startup pf cfg gen p))
            = (if enforceHardStopAtEnd cfg then filter (within_end pf cfg) (fst gen)
               else fst gen)"
    unfolding eq l by (simp add: enforce_hard_stop_fields fresh_state_def)
next
  assume sig: "configSignature s = getConfigSignature cfg"
  have l: "loaded (startup pf cfg gen (Some s)) = fst (enforce_hard_stop pf cfg s)"
    and w: "startup_writes (startup pf cfg gen (Some s)) = snd (enforce_hard_stop pf cfg s)"
    and r: "\<not> regenerated (startup pf cfg gen (Some s))"
    using startup_Some [OF sig, of pf gen] by simp_all
  show "\<not> regenerated (startup pf cfg gen (Some s))" by (rule r)
  show "sentCount (loaded (startup pf cfg gen (Some s))) = sentCount s"
    unfolding l by (simp add: enforce_hard_stop_fields)
  show "totalUsdRaised (loaded (startup pf cfg gen (Some s))) = totalUsdRaised s"
    unfolding l by (simp add: enforce_hard_stop_fields)
  show "completed (loaded (startup pf cfg gen (Some s))) = completed s"
    unfolding l by (simp add: enforce_hard_stop_fields)
  show "effectiveEnd (loaded (startup pf cfg gen (Some s))) = effectiveEnd s"
    unfolding l by (simp add: enforce_hard_stop_fields)
  show "configSignature (loaded (startup pf cfg gen (Some s))) = configSignature s"
    unfolding l by (simp add: enforce_hard_stop_fields)
  show "schedule (loaded (startup pf cfg gen (Some s)))
            = (if enforceHardStopAtEnd cfg then filter (within_end pf cfg) (schedule s)
               else schedule s)"
    unfolding l by (simp add: enforce_hard_stop_fields)
  show "startup_writes (startup pf cfg gen (Some s))
            = (if enforceHardStopAtEnd cfg then [loaded (startup pf cfg gen (Some s))]
               else [])"
    unfolding l w by (simp add: enforce_hard_stop_def Let_def)
next
  assume "in_loop pf cfg t"
  then have ok: "cursor_ok cfg t" and pr: "pruned pf cfg t"
    using reachable_inv(2) by blast+
  from ok have sig: "configSignature t = getConfigSignature cfg" by (simp add: cursor_ok_def)
  show "loaded (startup pf cfg gen (Some t)) = t"
    using startup_Some [OF sig, of pf gen] enforce_hard_stop_pruned [OF pr] by simp
  show "\<not> regenerated (startup pf cfg gen (Some t))"
    using startup_Some [OF sig, of pf gen] by simp
qed

theorem C5_idempotent_resume_witness:
  "configSignature example_last_delivered = getConfigSignature example_config
   \<and> \<not> regenerated
         (startup example_platform example_config example_generated
            (Some example_last_delivered))
   \<and> sentCount
        (loaded (startup example_platform example_config example_generated
                   (Some example_last_delivered))) = 1
   \<and> totalUsdRaised
        (loaded (startup example_platform example_config example_generated
                   (Some example_last_delivered))) = 100
   \<and> schedule
        (loaded (startup example_platform example_config example_generated
                   (Some example_last_delivered))) = [example_buy]
   \<and> configSignature example_last_delivered
       \<noteq> getConfigSignature (example_config\<lparr>maxPerHour := 30\<rparr>)
   \<and> regenerated
        (startup example_platform (example_config\<lparr>maxPerHour := 30\<rparr>) example_generated
           (Some example_last_delivered))
   \<and> sentCount
        (loaded (startup example_platform (example_config\<lparr>maxPerHour := 30\<rparr>)
                   example_generated (Some example_last_delivered))) = 0
   \<and> in_loop example_platform example_config example_fresh
   \<and> loaded (startup example_platform example_config example_generated (Some example_fresh))
       = example_fresh"
proof -
  have a: "configSignature example_last_delivered = getConfigSignature example_config"
    by (simp add: example_last_delivered_def)
  have b: "configSignature example_last_delivered
       \<noteq> getConfigSignature (example_config\<lparr>maxPerHour := 30\<rparr>)"
    by (simp add: example_last_delivered_def getConfigSignature_def example_config_def)
  have c: "sentCount example_last_delivered = 1" "totalUsdRaised example_last_delivered = 100"
    "schedule example_last_delivered = [example_buy]"
    "\<not> enforceHardStopAtEnd example_config"
    by (simp_all add: example_last_delivered_def example_config_def)
  show ?thesis
    using C5_idempotent_resume
            [where pf = example_platform and cfg = example_config and gen = example_generated
               and s = example_last_delivered and t = example_fresh
               and p = "Some example_last_delivered"]
          C5_idempotent_resume
            [where pf = example_platform and cfg = "example_config\<lparr>maxPerHour := 30\<rparr>"
               and gen = example_generated
               and s = example_last_delivered and p = "Some example_last_delivered"]
          a b c example_fresh_in_loop
    by simp
qed

theorem C5_hard_stop_alters_schedule_counterexample:
  "on_disk example_platform hard_stop_config (fresh_state hard_stop_config overlong_generated)
   \<and> configSignature (fresh_state hard_stop_config overlong_generated)
       = getConfigSignature hard_stop_config
   \<and> schedule (fresh_state hard_stop_config overlong_generated) = [example_buy, late_buy]
   \<and> \<not> regenerated
         (startup example_platform hard_stop_config overlong_generated
            (Some (fresh_state hard_stop_config overlong_generated)))
   \<and> schedule
        (loaded (startup example_platform hard_stop_config overlong_generated
                   (Some (fresh_state hard_stop_config overlong_generated))))
       = [example_buy]"
proof -
  have "fresh_state hard_stop_config overlong_generated
          \<in> set (startup_writes (startup example_platform hard_stop_config overlong_generated None))"
    by (simp add: startup_None)
  then have "on_disk example_platform hard_stop_config
               (fresh_state hard_stop_config overlong_generated)"
    by (rule first_run)
  moreover have "within_end example_platform hard_stop_config example_buy"
    "\<not> within_end example_platform hard_stop_config late_buy"
    by (simp_all add: within_end_def example_platform_def hard_stop_config_def
        example_buy_def late_buy_def)
  ultimately show ?thesis
    by (simp add: startup_def load_or_generate_def enforce_hard_stop_def Let_def
        fresh_state_def overlong_generated_def)
       (simp add: hard_stop_config_def)
qed

section \<open>Claims about the state store\<close>

lemma crash_disks_writeJsonFile:
  "set (crash_disks (writeJsonFile stringify p data) disk)
   = {disk} \<union> (\<lambda>n. disk(p \<mapsto> take n (stringify data))) ` {0..length (stringify data)}"
proof -
  have "{0..length (stringify data)} = insert (length (stringify data)) {0..<length (stringify data)}"
    by auto
  then show ?thesis
    by (auto simp: writeJsonFile_def)
qed

text \<open>
  Claim C9, as amended. A save is a single \<open>fs.writeFileSync\<close> on the state file
  itself: no temporary file is written and nothing is renamed. If the process stops
  during a save, the state file holds its old contents or a prefix of the new
  serialisation, and no other file is touched; a save that returns leaves the whole
  serialisation.
\<close>

theorem C9_save_is_direct_write:
  "writeJsonFile stringify p data = [WriteFileSync p (stringify data)]
   \<and> (\<forall>disk' \<in> set (crash_disks (writeJsonFile stringify p data) disk).
         (disk' p = disk p
          \<or> (\<exists>n \<le> length (stringify data). disk' p = Some (take n (stringify data))))
         \<and> (\<forall>q. q \<noteq> p \<longrightarrow> disk' q = disk q))
   \<and> last (crash_disks (writeJsonFile stringify p data) disk) p = Some (stringify data)"
proof (intro conjI ballI)
  show "writeJsonFile stringify p data = [WriteFileSync p (stringify data)]"
    by (simp add: writeJsonFile_def)
  show "last (crash_disks (writeJsonFile stringify p data) disk) p = Some (stringify data)"
    by (simp add: writeJsonFile_def)
next
  fix disk'
  assume "disk' \<in> set (crash_disks (writeJsonFile stringify p data) disk)"
  then consider "disk' = disk"
    | n where "n \<le> length (stringify data)" "disk' = disk(p \<mapsto> take n (stringify data))"
    unfolding crash_disks_writeJsonFile by auto
  then show "disk' p = disk p
          \<or> (\<exists>n \<le> length (stringify data). disk' p = Some (take n (stringify data)))"
    by cases auto
  show "\<forall>q. q \<noteq> p \<longrightarrow> disk' q = disk q"
    using \<open>disk' \<in> set (crash_disks (writeJsonFile stringify p data) disk)\<close>
    unfolding crash_disks_writeJsonFile by auto
qed

theorem C9_save_is_direct_write_witness:
  "example_disk(STATE_FILE \<mapsto> ''{\"sent'')
     \<in> set (crash_disks (writeJsonFile id STATE_FILE ''{\"sentCount\":2}'') example_disk)
   \<and> (example_disk(STATE_FILE \<mapsto> ''{\"sent'')) STATE_FILE = Some (take 6 ''{\"sentCount\":2}'')
   \<and> (example_disk(STATE_FILE \<mapsto> ''{\"sent'')) ''config.json'' = example_disk ''config.json''"
proof -
  have m: "example_disk(STATE_FILE \<mapsto> ''{\"sent'')
     \<in> set (crash_disks (writeJsonFile id STATE_FILE ''{\"sentCount\":2}'') example_disk)"
    unfolding crash_disks_writeJsonFile by (auto intro!: image_eqI [where x = 6])
  show ?thesis
    using C9_save_is_direct_write
            [where stringify = id and p = STATE_FILE and data = "''{\"sentCount\":2}''"
               and disk = example_disk] m
    by (simp add: STATE_FILE_def)
qed

theorem C9_truncated_state_counterexample:
  "map (\<lambda>disk. disk STATE_FILE)
       (crash_disks (writeJsonFile id STATE_FILE ''{}'') example_disk)
     = [Some ''{\"sentCount\":1}'', Some '''', Some ''{'', Some ''{}'']
   \<and> map (\<lambda>disk. disk STATE_FILE)
       (crash_disks (write_temp_then_rename id STATE_FILE ''{}'') example_disk)
     = [Some ''{\"sentCount\":1}'', Some ''{\"sentCount\":1}'', Some ''{\"sentCount\":1}'',
        Some ''{\"sentCount\":1}'', Some ''{}'']"
  by (simp add: writeJsonFile_def write_temp_then_rename_def example_disk_def STATE_FILE_def
      upt_rec [of 0] upt_rec [of 1])

section \<open>Interval deduplication keeps count, order and hour\<close>

lemma floorToHourTs_bounds:
  "floorToHourTs t \<le> t \<and> t < floorToHourTs t + 3600000 \<and> floorToHourTs t mod 3600000 = 0"
proof -
  have "0 \<le> t mod 3600000" "t mod 3600000 < 3600000" by simp_all
  moreover have "(t - t mod 3600000) mod 3600000 = 0" by (simp add: mod_diff_right_eq)
  ultimately show ?thesis by (simp add: floorToHourTs_def)
qed

lemma floorToHourTs_unique:
  assumes "hs mod 3600000 = 0" "hs \<le> t" "t < hs + 3600000"
  shows "floorToHourTs t = hs"
proof -
  have "t mod 3600000 = (hs + (t - hs)) mod 3600000" by simp
  also have "\<dots> = (t - hs) mod 3600000"
    using assms(1) by (metis add.left_neutral mod_add_left_eq)
  also have "\<dots> = t - hs" using assms(2,3) by simp
  finally show ?thesis by (simp add: floorToHourTs_def)
qed

lemma div_1000_bounds: "(x div 1000) * 1000 \<le> (x::int) \<and> x < (x div 1000 + 1) * 1000"
proof -
  define q r where "q = x div 1000" and "r = x mod 1000"
  have "x = q * 1000 + r" "0 \<le> r" "r < 1000"
    by (simp_all add: q_def r_def)
  then have "q * 1000 \<le> x \<and> x < (q + 1) * 1000" by simp
  then show ?thesis by (simp only: q_def)
qed

lemma ceil_div_1000_bound: "x \<le> ceil_div_1000 x * 1000"
  using div_1000_bounds [of "- x"] by (simp add: ceil_div_1000_def)

lemma find_in_set: "List.find P xs = Some x \<Longrightarrow> x \<in> set xs"
  by (induction xs) (auto split: if_splits)

lemma radius_search_range:
  assumes "List.find P (concat (map (radius_candidates baseSec lbSec ubSec) rs)) = Some cs"
    and "\<forall>r \<in> set rs. 1 \<le> r"
  shows "(baseSec < cs \<and> cs \<le> ubSec) \<or> (cs < baseSec \<and> lbSec \<le> cs)"
proof -
  have "cs \<in> set (concat (map (radius_candidates baseSec lbSec ubSec) rs))"
    using assms(1) by (rule find_in_set)
  then obtain r where "r \<in> set rs" "cs \<in> set (radius_candidates baseSec lbSec ubSec r)"
    by auto
  then show ?thesis
    using assms(2) by (auto simp: radius_candidates_def split: if_splits)
qed

lemma radii_positive: "\<forall>r \<in> set [1..300]. (1::int) \<le> r"
  by (simp only: set_upto) simp

lemma find_slot_range:
  assumes "find_slot U S hs prev baseSec lbSec ubSec = Some cs"
  shows "(baseSec < cs \<and> cs \<le> ubSec) \<or> (cs < baseSec \<and> lbSec \<le> cs)
         \<or> (lbSec \<le> cs \<and> cs \<le> ubSec)"
proof (cases "List.find (slot_free U S hs prev)
                 (concat (map (radius_candidates baseSec lbSec ubSec) [1..300]))")
  case None
  then have "List.find (slot_free U S hs prev) [lbSec..ubSec] = Some cs"
    using assms by (simp only: find_slot_def option.case)
  then have "cs \<in> set [lbSec..ubSec]" by (rule find_in_set)
  then show ?thesis by (simp only: set_upto) simp
next
  case (Some c)
  then have "List.find (slot_free U S hs prev)
                 (concat (map (radius_candidates baseSec lbSec ubSec) [1..300])) = Some cs"
    using assms by (simp only: find_slot_def option.case)
  then show ?thesis
    using radius_search_range [OF _ radii_positive] by blast
qed

lemma relocate_fst:
  "fst (relocate prev cur next U H) = cur
   \<or> (\<exists>cs. fst (relocate prev cur next U H) = floorToHourTs cur + cs * 1000
         \<and> lower_bound (floorToHourTs cur) prev
             \<le> upper_bound (hour_end (floorToHourTs cur)) next
         \<and> find_slot U (H (floorToHourTs cur) - {secondOfHour cur}) (floorToHourTs cur) prev
              (secondOfHour cur)
              (ceil_div_1000 (lower_bound (floorToHourTs cur) prev - floorToHourTs cur))
              ((upper_bound (hour_end (floorToHourTs cur)) next - floorToHourTs cur) div 1000)
            = Some cs)"
  by (simp add: relocate_def Let_def split: option.splits)

lemma slot_position:
  fixes hs cur prev ub upper lower cs :: int
  assumes hs: "hs \<le> cur" "cur < hs + 3600000"
    and prev: "prev \<le> cur"
    and lower: "lower = max hs (prev + 1000)" "lower \<le> upper"
    and upper: "upper \<le> hs + 3600000 - 1" "cur - 1000 \<le> upper"
    and range: "((cur - hs) div 1000 < cs \<and> cs \<le> (upper - hs) div 1000)
                \<or> (cs < (cur - hs) div 1000 \<and> ceil_div_1000 (lower - hs) \<le> cs)
                \<or> (ceil_div_1000 (lower - hs) \<le> cs \<and> cs \<le> (upper - hs) div 1000)"
  shows "hs \<le> hs + cs * 1000 \<and> hs + cs * 1000 < hs + 3600000
         \<and> prev < hs + cs * 1000 \<and> hs + cs * 1000 \<le> upper"
proof -
  have a: "((cur - hs) div 1000) * 1000 \<le> cur - hs"
    "cur - hs < ((cur - hs) div 1000 + 1) * 1000"
    using div_1000_bounds [of "cur - hs"] by simp_all
  have b: "((upper - hs) div 1000) * 1000 \<le> upper - hs"
    using div_1000_bounds [of "upper - hs"] by simp
  have c: "lower - hs \<le> ceil_div_1000 (lower - hs) * 1000"
    by (rule ceil_div_1000_bound)
  from range show ?thesis
  proof (elim disjE conjE)
    assume "(cur - hs) div 1000 < cs" "cs \<le> (upper - hs) div 1000"
    then have "((cur - hs) div 1000 + 1) * 1000 \<le> cs * 1000"
      "cs * 1000 \<le> ((upper - hs) div 1000) * 1000" by simp_all
    then show ?thesis using a b hs prev upper by linarith
  next
    assume "cs < (cur - hs) div 1000" "ceil_div_1000 (lower - hs) \<le> cs"
    then have "cs * 1000 \<le> ((cur - hs) div 1000) * 1000 - 1000"
      "ceil_div_1000 (lower - hs) * 1000 \<le> cs * 1000" by simp_all
    then show ?thesis using a c hs prev upper lower by linarith
  next
    assume "ceil_div_1000 (lower - hs) \<le> cs" "cs \<le> (upper - hs) div 1000"
    then have "ceil_div_1000 (lower - hs) * 1000 \<le> cs * 1000"
      "cs * 1000 \<le> ((upper - hs) div 1000) * 1000" by simp_all
    then show ?thesis using b c hs prev upper lower by linarith
  qed
qed

lemma relocate_props:
  assumes "prev \<le> cur" and "\<forall>n. next = Some n \<longrightarrow> cur \<le> n"
  shows "floorToHourTs (fst (relocate prev cur next U H)) = floorToHourTs cur
         \<and> (fst (relocate prev cur next U H) = cur
            \<or> (prev < fst (relocate prev cur next U H)
                \<and> (\<forall>n. next = Some n \<longrightarrow> fst (relocate prev cur next U H) < n)))"
proof -
  let ?hs = "floorToHourTs cur"
  let ?c = "fst (relocate prev cur next U H)"
  from relocate_fst [of prev cur "next" U H] show ?thesis
  proof (elim disjE exE conjE)
    assume "?c = cur"
    then show ?thesis by simp
  next
    fix cs
    assume c: "?c = ?hs + cs * 1000"
      and lo: "lower_bound ?hs prev \<le> upper_bound (hour_end ?hs) next"
      and f: "find_slot U (H ?hs - {secondOfHour cur}) ?hs prev (secondOfHour cur)
              (ceil_div_1000 (lower_bound ?hs prev - ?hs))
              ((upper_bound (hour_end ?hs) next - ?hs) div 1000) = Some cs"
    have hs: "?hs \<le> cur" "cur < ?hs + 3600000" "?hs mod 3600000 = 0"
      using floorToHourTs_bounds [of cur] by simp_all
    let ?up = "upper_bound (hour_end ?hs) next"
    have up: "?up \<le> ?hs + 3600000 - 1"
      "\<forall>n. next = Some n \<longrightarrow> ?up \<le> n - 1000"
      by (auto simp: upper_bound_def hour_end_def split: option.splits)
    have up2: "cur - 1000 \<le> ?up"
      using assms(2) hs by (auto simp: upper_bound_def hour_end_def split: option.splits)
    have lo': "lower_bound ?hs prev = max ?hs (prev + 1000)"
      by (simp add: lower_bound_def)
    have pos: "?hs \<le> ?hs + cs * 1000 \<and> ?hs + cs * 1000 < ?hs + 3600000
         \<and> prev < ?hs + cs * 1000 \<and> ?hs + cs * 1000 \<le> ?up"
      using slot_position [OF hs(1,2) assms(1) lo' lo up(1) up2, of cs]
        find_slot_range [OF f] by (simp add: secondOfHour_def)
    then have "floorToHourTs ?c = ?hs"
      using floorToHourTs_unique [OF hs(3), of "?hs + cs * 1000"] c by simp
    moreover have "prev < ?c" using pos c by simp
    moreover have "\<forall>n. next = Some n \<longrightarrow> ?c < n"
      using pos c up(2) by fastforce
    ultimately show ?thesis by simp
  qed
qed


lemma relocate_no_slot:
  assumes "find_slot U (H (floorToHourTs cur) - {secondOfHour cur}) (floorToHourTs cur) prev
              (secondOfHour cur)
              (ceil_div_1000 (lower_bound (floorToHourTs cur) prev - floorToHourTs cur))
              ((upper_bound (hour_end (floorToHourTs cur)) next - floorToHourTs cur) div 1000)
            = None"
  shows "fst (relocate prev cur next U H) = cur"
  using assms by (simp add: relocate_def Let_def)

lemma eui_loop_props:
  assumes "sorted (prev # xs)"
  shows "length (eui_loop prev xs U H) = length xs
         \<and> sorted (prev # eui_loop prev xs U H)
         \<and> map floorToHourTs (eui_loop prev xs U H) = map floorToHourTs xs
         \<and> moved_strictly_between prev xs (eui_loop prev xs U H)
         \<and> (case eui_loop prev xs U H of [] \<Rightarrow> True | y # ys \<Rightarrow> y = hd xs \<or> prev < y)"
  using assms
proof (induction xs arbitrary: prev U H)
  case Nil
  then show ?case by simp
next
  case (Cons cur rest)
  define nxt where "nxt = (case rest of [] \<Rightarrow> None | n # ns \<Rightarrow> Some n)"
  obtain c' U' H' where r: "relocate prev cur nxt U H = (c', U', H')"
    by (cases "relocate prev cur nxt U H") auto
  have le: "prev \<le> cur" and nx: "\<forall>n. nxt = Some n \<longrightarrow> cur \<le> n"
    using Cons.prems by (auto simp: nxt_def split: list.splits)
  have p: "floorToHourTs c' = floorToHourTs cur"
    "c' = cur \<or> (prev < c' \<and> (\<forall>n. nxt = Some n \<longrightarrow> c' < n))"
    using relocate_props [OF le nx, of U H] r by auto
  have c_le: "\<forall>n. nxt = Some n \<longrightarrow> c' \<le> n" using p(2) nx by auto
  have srt: "sorted (c' # rest)"
  proof (cases rest)
    case Nil
    then show ?thesis by simp
  next
    case (Cons n ns)
    then have "c' \<le> n" using c_le by (simp add: nxt_def)
    moreover have "sorted (n # ns)" using Cons.prems Cons by simp
    ultimately show ?thesis using Cons by auto
  qed
  let ?ys = "eui_loop c' rest U' H'"
  have ih: "length ?ys = length rest" "sorted (c' # ?ys)"
    "map floorToHourTs ?ys = map floorToHourTs rest"
    "moved_strictly_between c' rest ?ys"
    "case ?ys of [] \<Rightarrow> True | y # ys \<Rightarrow> y = hd rest \<or> c' < y"
    using Cons.IH [OF srt, of U' H'] by simp_all
  have eq: "eui_loop prev (cur # rest) U H = c' # ?ys"
    using r by (simp add: nxt_def)
  have prev_le: "prev \<le> c'" using p(2) le by auto
  have strict: "case ?ys of [] \<Rightarrow> True | z # zs \<Rightarrow> c' < z" if "c' \<noteq> cur"
  proof (cases ?ys)
    case Nil
    then show ?thesis by simp
  next
    case (Cons z zs)
    then obtain n ns where rest: "rest = n # ns" using ih(1) by (cases rest) auto
    then have "c' < n" using p(2) that by (simp add: nxt_def)
    moreover have "z = n \<or> c' < z" using ih(5) Cons rest by simp
    ultimately show ?thesis using Cons by auto
  qed
  have "sorted (prev # c' # ?ys)"
    using ih(2) prev_le by auto
  moreover have "moved_strictly_between prev (cur # rest) (c' # ?ys)"
    using ih(4) strict p(2) by auto
  moreover have "c' = cur \<or> prev < c'" using p(2) by auto
  ultimately show ?case
    unfolding eq using ih(1,3) p(1) by simp
qed

lemma moved_strictly_between_nth:
  assumes "moved_strictly_between p xs ys" and "i < length xs" and "ys ! i \<noteq> xs ! i"
  shows "(if i = 0 then p else ys ! (i - 1)) < ys ! i
         \<and> (Suc i < length ys \<longrightarrow> ys ! i < ys ! Suc i)"
  using assms
proof (induction p xs ys arbitrary: i rule: moved_strictly_between.induct)
  case (1 prev x xs y ys)
  show ?case
  proof (cases i)
    case 0
    then show ?thesis using "1.prems" by (cases ys) auto
  next
    case (Suc j)
    then have "(if j = 0 then y else ys ! (j - 1)) < ys ! j
         \<and> (Suc j < length ys \<longrightarrow> ys ! j < ys ! Suc j)"
      using "1.IH" [of j] "1.prems" by simp
    then show ?thesis using Suc by (cases j) auto
  qed
qed simp_all

lemma enforceUniqueIntervals_example:
  "enforceUniqueIntervals [0, 1000, 2000] = [0, 1000, 3000]"
  by code_simp

text \<open>
  Claim C6. On a sorted list of timestamps \<open>enforceUniqueIntervals\<close> returns a
  list of the same length that is sorted again, in which every timestamp has the
  hour bucket of the input timestamp at its position; a timestamp that differs from
  the input is not the first one and lies strictly between its neighbours in the
  output. When the search finds no free slot, the iteration keeps the timestamp.
\<close>

theorem C6_enforceUniqueIntervals:
  assumes "sorted ts"
  shows "length (enforceUniqueIntervals ts) = length ts
         \<and> sorted (enforceUniqueIntervals ts)
         \<and> map floorToHourTs (enforceUniqueIntervals ts) = map floorToHourTs ts
         \<and> (\<forall>i < length ts. enforceUniqueIntervals ts ! i \<noteq> ts ! i \<longrightarrow>
               0 < i
               \<and> enforceUniqueIntervals ts ! (i - 1) < enforceUniqueIntervals ts ! i
               \<and> (i + 1 < length ts \<longrightarrow>
                    enforceUniqueIntervals ts ! i < enforceUniqueIntervals ts ! (i + 1)))
         \<and> (find_slot U (H (floorToHourTs cur) - {secondOfHour cur}) (floorToHourTs cur) prev
               (secondOfHour cur)
               (ceil_div_1000 (lower_bound (floorToHourTs cur) prev - floorToHourTs cur))
               ((upper_bound (hour_end (floorToHourTs cur)) next - floorToHourTs cur) div 1000)
             = None \<longrightarrow> fst (relocate prev cur next U H) = cur)"
proof (cases ts)
  case Nil
  then show ?thesis
    using relocate_no_slot [of U H cur prev "next"] by (simp add: enforceUniqueIntervals_def)
next
  case (Cons first rest)
  let ?ys = "eui_loop first rest {} (init_hourToSeconds ts (\<lambda>hourKey. {}))"
  have out: "enforceUniqueIntervals ts = first # ?ys"
    using Cons by (simp add: enforceUniqueIntervals_def)
  have props: "length ?ys = length rest" "sorted (first # ?ys)"
    "map floorToHourTs ?ys = map floorToHourTs rest"
    "moved_strictly_between first rest ?ys"
    using eui_loop_props [of first rest] assms Cons by simp_all
  have moved: "0 < i \<and> (first # ?ys) ! (i - 1) < (first # ?ys) ! i
               \<and> (i + 1 < length ts \<longrightarrow> (first # ?ys) ! i < (first # ?ys) ! (i + 1))"
    if "i < length ts" "(first # ?ys) ! i \<noteq> ts ! i" for i
  proof (cases i)
    case 0
    then show ?thesis using that Cons by simp
  next
    case (Suc j)
    then have "(if j = 0 then first else ?ys ! (j - 1)) < ?ys ! j
         \<and> (Suc j < length ?ys \<longrightarrow> ?ys ! j < ?ys ! Suc j)"
      using moved_strictly_between_nth [OF props(4), of j] that Cons by simp
    then show ?thesis using Suc props(1) Cons by (cases j) auto
  qed
  have "length (first # ?ys) = length ts" using props(1) Cons by simp
  moreover have "sorted (first # ?ys)" by (rule props(2))
  moreover have "map floorToHourTs (first # ?ys) = map floorToHourTs ts"
    using props(3) Cons by simp
  moreover have "\<forall>i < length ts. (first # ?ys) ! i \<noteq> ts ! i \<longrightarrow>
               0 < i \<and> (first # ?ys) ! (i - 1) < (first # ?ys) ! i
               \<and> (i + 1 < length ts \<longrightarrow> (first # ?ys) ! i < (first # ?ys) ! (i + 1))"
    using moved by blast
  ultimately show ?thesis
    unfolding out using relocate_no_slot [of U H cur prev "next"] by blast
qed

theorem C6_enforceUniqueIntervals_witness:
  "sorted [0, 1000, 2000 :: int]
   \<and> enforceUniqueIntervals [0, 1000, 2000] = [0, 1000, 3000]
   \<and> length (enforceUniqueIntervals [0, 1000, 2000]) = length [0, 1000, 2000 :: int]
   \<and> sorted (enforceUniqueIntervals [0, 1000, 2000])
   \<and> map floorToHourTs (enforceUniqueIntervals [0, 1000, 2000])
       = map floorToHourTs [0, 1000, 2000]"
  using C6_enforceUniqueIntervals [of "[0, 1000, 2000]"] enforceUniqueIntervals_example
  by simp

end
